theory Spec2Isabelle
  imports Main "HOL-Library.Word"
begin

unbundle bit_operations_syntax

section \<open>Bytes, Go slices and the netlink constants\<close>

type_synonym byte = "8 word"
type_synonym uint16 = "16 word"
type_synonym uint32 = "32 word"

text \<open>
  A Go byte slice is a window on a backing array: it has a length and a capacity.
  \<open>elems\<close> holds the \<open>len(b)\<close> bytes of the slice, \<open>spare\<close> the bytes of the
  backing array that follow them, so \<open>cap(b) = len(b) + length (spare b)\<close>.
  The Go specification bounds \<open>b[lo:]\<close> by the length (the upper index defaults to
  \<open>len(b)\<close>) and \<open>b[lo:hi]\<close>, \<open>b[:hi]\<close> by the capacity. An index out of
  range panics: the model returns \<open>None\<close>.
\<close>

datatype slice = Slice (elems: "byte list") (spare: "byte list")

definition len :: "slice \<Rightarrow> nat" where
  "len b = length (elems b)"

definition cap :: "slice \<Rightarrow> nat" where
  "cap b = length (elems b) + length (spare b)"

definition backing :: "slice \<Rightarrow> byte list" where
  "backing b = elems b @ spare b"

definition slice_from :: "slice \<Rightarrow> int \<Rightarrow> slice option" where
  \<comment> \<open>\<open>b[lo:]\<close>\<close>
  "slice_from b lo =
     (if 0 \<le> lo \<and> lo \<le> int (len b)
      then Some (Slice (drop (nat lo) (elems b)) (spare b))
      else None)"

definition slice_range :: "slice \<Rightarrow> int \<Rightarrow> int \<Rightarrow> slice option" where
  \<comment> \<open>\<open>b[lo:hi]\<close>\<close>
  "slice_range b lo hi =
     (if 0 \<le> lo \<and> lo \<le> hi \<and> hi \<le> int (cap b)
      then Some (Slice (drop (nat lo) (take (nat hi) (backing b))) (drop (nat hi) (backing b)))
      else None)"

definition slice_to :: "slice \<Rightarrow> int \<Rightarrow> slice option" where
  \<comment> \<open>\<open>b[:hi]\<close>\<close>
  "slice_to b hi = slice_range b 0 hi"

text \<open>The constants of Go's \<open>syscall\<close> package on Linux.\<close>

definition NLMSG_HDRLEN :: int where
  "NLMSG_HDRLEN = 16"

definition NLMSG_ALIGNTO :: int where
  "NLMSG_ALIGNTO = 4"

definition NLMSG_ERROR :: uint16 where
  "NLMSG_ERROR = 2"

text \<open>
  Modelled from the spec: \<open>nlmAlignOf\<close> is declared in another file of the package.
  The spec has it as \<open>round_up(header.length, ALIGN)\<close>, the length rounded up to the
  transport's alignment boundary. Its argument is a Go \<open>int\<close> holding a \<open>uint32\<close>
  (64-bit \<open>int\<close>: no wrap-around).
\<close>

definition nlmAlignOf :: "int \<Rightarrow> int" where
  "nlmAlignOf msglen = ((msglen + NLMSG_ALIGNTO - 1) div NLMSG_ALIGNTO) * NLMSG_ALIGNTO"

section \<open>Byte order and the message header\<close>

text \<open>
  \<open>nativeEndian()\<close> is declared in another file of the package and gives the byte order
  of the host; it is a parameter here. \<open>Uint32\<close> is \<open>encoding/binary\<close>'s
  \<open>ByteOrder.Uint32\<close>, which panics on fewer than four bytes.
\<close>

datatype endian = LittleEndian | BigEndian

definition le32 :: "byte \<Rightarrow> byte \<Rightarrow> byte \<Rightarrow> byte \<Rightarrow> uint32" where
  "le32 b0 b1 b2 b3 =
     ucast b0 OR push_bit 8 (ucast b1) OR push_bit 16 (ucast b2) OR push_bit 24 (ucast b3)"

definition le16 :: "byte \<Rightarrow> byte \<Rightarrow> uint16" where
  "le16 b0 b1 = ucast b0 OR push_bit 8 (ucast b1)"

fun Uint32 :: "endian \<Rightarrow> byte list \<Rightarrow> uint32 option" where
  "Uint32 LittleEndian (b0 # b1 # b2 # b3 # _) = Some (le32 b0 b1 b2 b3)"
| "Uint32 BigEndian (b0 # b1 # b2 # b3 # _) = Some (le32 b3 b2 b1 b0)"
| "Uint32 _ _ = None"

fun Uint16 :: "endian \<Rightarrow> byte list \<Rightarrow> uint16 option" where
  "Uint16 LittleEndian (b0 # b1 # _) = Some (le16 b0 b1)"
| "Uint16 BigEndian (b0 # b1 # _) = Some (le16 b1 b0)"
| "Uint16 _ _ = None"

text \<open>
  \<open>AuditEvent\<close> holds a parsed audit message. Its \<open>Type\<close> field is written
  \<open>AuditEvent.Type\<close> below; the unqualified \<open>Type\<close> is the header's.
\<close>

record AuditEvent =
  Serial :: string
  Timestamp :: string
  Type :: string
  Data :: "string \<rightharpoonup> string"
  Raw :: string

text \<open>
  \<open>syscall.NlMsghdr\<close>: \<open>Len uint32\<close> at offset 0, \<open>Type uint16\<close> at offset 4, then
  \<open>Flags uint16\<close>, \<open>Seq uint32\<close>, \<open>Pid uint32\<close>; 16 bytes.
\<close>

record NlMsghdr =
  Len :: uint32
  Type :: uint16
  Flags :: uint16
  Seq :: uint32
  Pid :: uint32

text \<open>
  \<open>(*syscall.NlMsghdr)(unsafe.Pointer(&b[0]))\<close>: the first 16 bytes of the slice read
  as a header in the host's byte order. \<open>&b[0]\<close> panics on an empty slice; the
  fields of a shorter slice are read from the backing array, and past its end the read is
  outside Go's memory model (\<open>None\<close>).
\<close>

definition NlMsghdr_at :: "endian \<Rightarrow> slice \<Rightarrow> NlMsghdr option" where
  "NlMsghdr_at bo b =
     (if len b = 0 then None
      else case (Uint32 bo (backing b), Uint16 bo (drop 4 (backing b)),
                 Uint16 bo (drop 6 (backing b)), Uint32 bo (drop 8 (backing b)),
                 Uint32 bo (drop 12 (backing b))) of
             (Some l, Some t, Some f, Some s, Some p) \<Rightarrow>
               Some \<lparr>Len = l, Type = t, Flags = f, Seq = s, Pid = p\<rparr>
           | _ \<Rightarrow> None)"

text \<open>\<open>NetlinkMessage\<close>, as \<open>Receive\<close> returns them: a header and its data.\<close>

record NetlinkMessage =
  Header :: NlMsghdr
  Data :: slice

section \<open>Errors, text and callbacks\<close>

text \<open>
  One constructor for each place where the package builds an error, holding the values
  formatted into the message; \<open>ParseFailure\<close> and \<open>ReadFailure\<close> are the errors of
  the text-record parser and of the transport, which are opaque here.
\<close>

datatype error =
    ErrorReceivingEvents int
  | UnknownMessageType uint16
  | UnknownType string
  | ParseFailure string
  | ReadFailure string

text \<open>\<open>strconv.Itoa\<close>: the decimal digits of an integer, with a minus sign if negative.\<close>

fun digits :: "nat \<Rightarrow> string" where
  "digits n = (if n < 10 then [char_of (48 + n)] else digits (n div 10) @ [char_of (48 + n mod 10)])"

declare digits.simps [simp del]

definition Itoa :: "int \<Rightarrow> string" where
  "Itoa i = (if i < 0 then CHR ''-'' # digits (nat (- i)) else digits (nat i))"

text \<open>\<open>string(b)\<close> of a byte slice: its \<open>len(b)\<close> bytes.\<close>

definition string_of :: "slice \<Rightarrow> string" where
  "string_of b = map (\<lambda>w. char_of (unat w)) (elems b)"

text \<open>
  \<open>int32(nativeEndian().Uint32(d[0:4]))\<close>, as every driver reads the code of a
  transport-error frame. The source has no check before it: \<open>d[0:4]\<close> panics when the
  capacity of \<open>d\<close> is below 4.
\<close>

definition error_code :: "endian \<Rightarrow> slice \<Rightarrow> int option" where
  "error_code bo d =
     (case slice_range d 0 4 of
        None \<Rightarrow> None
      | Some s \<Rightarrow> (case Uint32 bo (elems s) of None \<Rightarrow> None | Some w \<Rightarrow> Some (sint w)))"

text \<open>
  What a run of straight-line code did: the callback invocations it made, in order, and
  whether it completed or panicked after them.
\<close>

datatype 'c outcome = Completed "'c list" | Panicked "'c list"

fun prepend :: "'c list \<Rightarrow> 'c outcome \<Rightarrow> 'c outcome" where
  "prepend cs (Completed ds) = Completed (cs @ ds)"
| "prepend cs (Panicked ds) = Panicked (cs @ ds)"

fun calls :: "'c outcome \<Rightarrow> 'c list" where
  "calls (Completed cs) = cs"
| "calls (Panicked cs) = cs"

section \<open>The splitting loop of GetRawAuditMessages\<close>

text \<open>An invocation of a \<open>RawEventTypeCallback\<close>: the type, the text and the error.\<close>

type_synonym raw_type_call = "uint16 \<times> string \<times> error option"

text \<open>
  One iteration of \<open>for len(b) >= syscall.NLMSG_HDRLEN { ... }\<close>: \<open>Stop\<close> when the
  loop condition fails or the body breaks, \<open>Fault\<close> when the body panics (with the calls
  made before), \<open>Next\<close> with the calls made and the slice left for the next iteration.
\<close>

datatype 'c step = Stop | Fault "'c list" | Next "'c list" slice

text \<open>The final \<open>b = b[dlen:]\<close> of the body.\<close>

definition advance :: "'c list \<Rightarrow> slice \<Rightarrow> int \<Rightarrow> 'c step" where
  "advance cs b dlen = (case slice_from b dlen of None \<Rightarrow> Fault cs | Some b' \<Rightarrow> Next cs b')"

text \<open>
  The two branches of the body differ only in the upper index \<open>n\<close> of the text
  \<open>string(b[:n])\<close>. Go evaluates the arguments before the call, so a panic in one of
  them leaves the callback uninvoked.
\<close>

definition deliver :: "endian \<Rightarrow> NlMsghdr \<Rightarrow> slice \<Rightarrow> int \<Rightarrow> raw_type_call list option" where
  "deliver bo h b n =
     (if Type h = NLMSG_ERROR then
        (case error_code bo b of
           None \<Rightarrow> None
         | Some v \<Rightarrow>
             if v \<noteq> 0 then
               (case slice_to b n of
                  None \<Rightarrow> None
                | Some p \<Rightarrow> Some [(Type h, string_of p, Some (ErrorReceivingEvents v))])
             else Some [])
      else
        (case slice_to b n of
           None \<Rightarrow> None
         | Some p \<Rightarrow> Some [(Type h, string_of p, None)]))"

text \<open>
  \<open>int(h.Len)\<close> is the unsigned value of the field (64-bit \<open>int\<close>). The header
  \<open>h\<close> points into the backing array, so it is unchanged by \<open>b = b[NLMSG_HDRLEN:]\<close>.
  The test \<open>err != nil\<close> of the body is inside \<open>if err == nil\<close> and never true.
\<close>

definition split_step :: "endian \<Rightarrow> slice \<Rightarrow> raw_type_call step" where
  "split_step bo b0 =
     (if int (len b0) < NLMSG_HDRLEN then Stop
      else
        (case NlMsghdr_at bo b0 of
           None \<Rightarrow> Fault []
         | Some h \<Rightarrow>
             (if uint (Len h) < NLMSG_HDRLEN \<or> uint (Len h) > int (len b0) then Stop
              else
                (case slice_from b0 NLMSG_HDRLEN of
                   None \<Rightarrow> Fault []
                 | Some b \<Rightarrow>
                     (let dlen = nlmAlignOf (uint (Len h)) - NLMSG_HDRLEN in
                      if int (len b) = uint (Len h) \<or> dlen = uint (Len h) then
                        (case deliver bo h b (uint (Len h)) of
                           None \<Rightarrow> Fault []
                         | Some cs \<Rightarrow> advance cs b dlen)
                      else
                        (case deliver bo h b (uint (Len h) - NLMSG_HDRLEN) of
                           None \<Rightarrow> Fault []
                         | Some cs \<Rightarrow> advance cs b dlen))))))"

function split_loop :: "endian \<Rightarrow> slice \<Rightarrow> raw_type_call outcome" where
  "split_loop bo b =
     (case split_step bo b of
        Stop \<Rightarrow> Completed []
      | Fault cs \<Rightarrow> Panicked cs
      | Next cs b' \<Rightarrow> prepend cs (split_loop bo b'))"
  by pat_completeness auto
termination
  by (relation "measure (\<lambda>(bo, b). len b)")
     (auto simp: split_step_def Let_def advance_def slice_from_def len_def NLMSG_HDRLEN_def
           split: if_splits option.splits)

declare split_loop.simps [simp del]

section \<open>The event decoder\<close>

text \<open>
  \<open>"auditConstant(" + strconv.Itoa(int(msg.Header.Type)) + ")"\<close>: the text the generated
  \<open>String\<close> method gives a code that has no name.
\<close>

definition placeholder :: "uint16 \<Rightarrow> string" where
  "placeholder t = ''auditConstant('' @ Itoa (uint t) @ '')''"

text \<open>
  \<open>ParseAuditEvent\<close> is declared in another file of the package. It is the parameter
  \<open>parse\<close>: from the text, the type and the flag it gives an error or an event.
\<close>

type_synonym parser = "string \<Rightarrow> uint16 \<Rightarrow> bool \<Rightarrow> error + AuditEvent"

text \<open>An invocation of an \<open>EventCallback\<close>: the event (or nil) and the error (or nil).\<close>

type_synonym event_call = "AuditEvent option \<times> error option"

definition NewAuditEvent :: "parser \<Rightarrow> NetlinkMessage \<Rightarrow> event_call" where
  "NewAuditEvent parse msg =
     (case parse (string_of (Data msg)) (Type (Header msg)) True of
        Inl err \<Rightarrow> (None, Some err)
      | Inr x \<Rightarrow>
          if AuditEvent.Type x = placeholder (Type (Header msg))
          then (None, Some (UnknownMessageType (Type (Header msg))))
          else (Some x, None))"



section \<open>Dispatch of the messages of one read\<close>

text \<open>
  The body of \<open>for _, msg := range msgs\<close> in \<open>GetAuditEvents\<close> and in
  \<open>GetAuditMessages\<close> (the two bodies are the same).
\<close>

definition dispatch_event :: "endian \<Rightarrow> parser \<Rightarrow> NetlinkMessage \<Rightarrow> event_call outcome" where
  "dispatch_event bo parse msg =
     (if Type (Header msg) = NLMSG_ERROR then
        (case error_code bo (Data msg) of
           None \<Rightarrow> Panicked []
         | Some v \<Rightarrow>
             if v \<noteq> 0 then Completed [(None, Some (ErrorReceivingEvents v))]
             else Completed [])
      else Completed [NewAuditEvent parse msg])"

text \<open>
  \<open>string(msg.Header.Type)\<close> converts an integer to text: Go gives the UTF-8 encoding
  of the code point, and of U+FFFD for a surrogate.
\<close>

definition utf8_rune :: "nat \<Rightarrow> string" where
  "utf8_rune r =
     (if r < 0x80 then [char_of r]
      else if r < 0x800 then [char_of (0xC0 + r div 64), char_of (0x80 + r mod 64)]
      else if 0xD800 \<le> r \<and> r \<le> 0xDFFF then [CHR 0xEF, CHR 0xBF, CHR 0xBD]
      else [char_of (0xE0 + r div 4096), char_of (0x80 + (r div 64) mod 64),
            char_of (0x80 + r mod 64)])"

text \<open>An invocation of a \<open>RawEventCallback\<close>: the text and the error (or nil).\<close>

type_synonym raw_call = "string \<times> error option"

text \<open>
  The body of \<open>for _, msg := range msgs\<close> in \<open>GetRawAuditEvents\<close>. The method
  \<open>String\<close> of \<open>auditConstant\<close> is generated code that is not in the file: it is the
  parameter \<open>name\<close>. \<open>m\<close> and \<open>err\<close> start as the empty text and nil, and the call
  \<open>cb(m, err, args...)\<close> that ends the body comes after the whole \<open>if\<close>, so it
  is made for a transport-error frame too. \<open>Type.String()[6:]\<close> panics on a name of
  fewer than 6 bytes.
\<close>

definition dispatch_raw :: "endian \<Rightarrow> (uint16 \<Rightarrow> string) \<Rightarrow> NetlinkMessage \<Rightarrow> raw_call outcome" where
  "dispatch_raw bo name msg =
     (if Type (Header msg) = NLMSG_ERROR then
        (case error_code bo (Data msg) of
           None \<Rightarrow> Panicked []
         | Some v \<Rightarrow>
             if v \<noteq> 0 then Completed [([], Some (ErrorReceivingEvents v)), ([], None)]
             else Completed [([], None)])
      else if name (Type (Header msg)) = placeholder (Type (Header msg)) then
        Completed [([], Some (UnknownType (''Unknown Type: '' @ utf8_rune (unat (Type (Header msg))))))]
      else if length (name (Type (Header msg))) < 6 then Panicked []
      else
        Completed [(''type='' @ drop 6 (name (Type (Header msg))) @ '' msg=''
                      @ string_of (Data msg) @ [CHR 0x0A], None)])"

text \<open>The \<open>range\<close> loop: the messages in order, until one panics.\<close>

fun dispatch_all :: "('m \<Rightarrow> 'c outcome) \<Rightarrow> 'm list \<Rightarrow> 'c outcome" where
  "dispatch_all f [] = Completed []"
| "dispatch_all f (m # ms) =
     (case f m of
        Panicked cs \<Rightarrow> Panicked cs
      | Completed cs \<Rightarrow> prepend cs (dispatch_all f ms))"

section \<open>The driver loops\<close>

text \<open>
  A driver loops forever, so its behaviour is given on a script of what the environment
  presents to the successive iterations: the result of each transport read and, for the
  cancellable drivers, whether a value can be received from \<open>*done\<close> (a sender waits or
  the channel is closed) when the iteration's \<open>select\<close> runs. The run is the trace of
  reads and callback invocations, and where the driver stands when the script is used up:
  still looping, returned, or crashed by a panic. The \<open>args\<close> are handed to the callback
  unchanged and are left out. \<open>GetAuditEvents\<close> and \<open>GetRawAuditEvents\<close> start their
  loop in a goroutine; the run is that goroutine's.
\<close>

datatype 'c event = Receive | Callback 'c

datatype status = Looping | Returned | Crashed

type_synonym 'c run = "'c event list \<times> status"

definition receives :: "'c run \<Rightarrow> nat" where
  "receives r = length (filter (\<lambda>e. e = Receive) (fst r))"

text \<open>One read and its dispatch, followed by the rest of the loop unless it panicked.\<close>

fun cycle :: "'c outcome \<Rightarrow> 'c run \<Rightarrow> 'c run" where
  "cycle (Panicked cs) rest = (Receive # map Callback cs, Crashed)"
| "cycle (Completed cs) rest = (Receive # map Callback cs @ fst rest, snd rest)"

text \<open>
  \<open>if err == nil { ... }\<close> after the read: the dispatch runs on a successful read only.
\<close>

fun on_success :: "('r \<Rightarrow> 'c outcome) \<Rightarrow> error + 'r \<Rightarrow> 'c outcome" where
  "on_success f (Inl err) = Completed []"
| "on_success f (Inr r) = f r"


fun GetRawAuditEvents ::
  "endian \<Rightarrow> (uint16 \<Rightarrow> string) \<Rightarrow> (error + NetlinkMessage list) list \<Rightarrow> raw_call run" where
  "GetRawAuditEvents bo name [] = ([], Looping)"
| "GetRawAuditEvents bo name (r # script) =
     cycle (on_success (dispatch_all (dispatch_raw bo name)) r) (GetRawAuditEvents bo name script)"

fun GetRawAuditMessages :: "endian \<Rightarrow> (bool \<times> (error + slice)) list \<Rightarrow> raw_type_call run" where
  "GetRawAuditMessages bo [] = ([], Looping)"
| "GetRawAuditMessages bo ((done, r) # script) =
     (if done then ([], Returned)
      else cycle (on_success (split_loop bo) r) (GetRawAuditMessages bo script))"

fun GetAuditMessages ::
  "endian \<Rightarrow> parser \<Rightarrow> (bool \<times> (error + NetlinkMessage list)) list \<Rightarrow> event_call run" where
  "GetAuditMessages bo parse [] = ([], Looping)"
| "GetAuditMessages bo parse ((done, r) # script) =
     (if done then ([], Returned)
      else cycle (on_success (dispatch_all (dispatch_event bo parse)) r)
             (GetAuditMessages bo parse script))"

section \<open>Arithmetic of the alignment and totality of the decoders\<close>

lemma advance_Next:
  "advance cs b dlen = Next ds b' \<longleftrightarrow>
     ds = cs \<and> 0 \<le> dlen \<and> dlen \<le> int (len b) \<and> b' = Slice (drop (nat dlen) (elems b)) (spare b)"
  by (auto simp: advance_def slice_from_def split: option.splits)

lemma nlmAlignOf_bounds: "n \<le> nlmAlignOf n \<and> nlmAlignOf n < n + 4 \<and> nlmAlignOf n mod 4 = 0"
  unfolding nlmAlignOf_def NLMSG_ALIGNTO_def by presburger

lemma nlmAlignOf_aligned: "n mod 4 = 0 \<Longrightarrow> nlmAlignOf n = n"
  unfolding nlmAlignOf_def NLMSG_ALIGNTO_def by presburger

lemma nlmAlignOf_unaligned: "n mod 4 \<noteq> 0 \<Longrightarrow> n < nlmAlignOf n"
  unfolding nlmAlignOf_def NLMSG_ALIGNTO_def by presburger

lemma Uint32_None: "Uint32 bo xs = None \<longleftrightarrow> length xs < 4"
  by (induction bo xs rule: Uint32.induct) auto

lemma Uint16_None: "Uint16 bo xs = None \<longleftrightarrow> length xs < 2"
  by (induction bo xs rule: Uint16.induct) auto

lemma NlMsghdr_at_total:
  assumes "16 \<le> len b"
  shows "\<exists>h. NlMsghdr_at bo b = Some h"
proof -
  have l: "16 \<le> length (backing b)" using assms by (simp add: len_def backing_def)
  obtain l where 1: "Uint32 bo (backing b) = Some l"
    using l Uint32_None[of bo "backing b"] by (cases "Uint32 bo (backing b)") auto
  obtain t where 2: "Uint16 bo (drop 4 (backing b)) = Some t"
    using l Uint16_None[of bo "drop 4 (backing b)"] by (cases "Uint16 bo (drop 4 (backing b))") auto
  obtain f where 3: "Uint16 bo (drop 6 (backing b)) = Some f"
    using l Uint16_None[of bo "drop 6 (backing b)"] by (cases "Uint16 bo (drop 6 (backing b))") auto
  obtain s where 4: "Uint32 bo (drop 8 (backing b)) = Some s"
    using l Uint32_None[of bo "drop 8 (backing b)"] by (cases "Uint32 bo (drop 8 (backing b))") auto
  obtain p where 5: "Uint32 bo (drop 12 (backing b)) = Some p"
    using l Uint32_None[of bo "drop 12 (backing b)"] by (cases "Uint32 bo (drop 12 (backing b))") auto
  show ?thesis using assms 1 2 3 4 5 by (simp add: NlMsghdr_at_def)
qed

lemma error_code_None: "error_code bo d = None \<longleftrightarrow> cap d < 4"
  by (auto simp: error_code_def slice_range_def cap_def backing_def Uint32_None split: option.splits)


lemma dlen_never_Len: "nlmAlignOf n - NLMSG_HDRLEN \<noteq> n"
  using nlmAlignOf_bounds[of n] by (simp add: NLMSG_HDRLEN_def)

lemma slice_from_header:
  "NLMSG_HDRLEN \<le> int (len b0) \<Longrightarrow>
   slice_from b0 NLMSG_HDRLEN = Some (Slice (drop 16 (elems b0)) (spare b0))"
  by (simp add: slice_from_def NLMSG_HDRLEN_def)

lemma split_step_guarded:
  assumes "NlMsghdr_at bo b0 = Some h"
    and "NLMSG_HDRLEN \<le> uint (Len h)" and "uint (Len h) \<le> int (len b0)"
    and "slice_from b0 NLMSG_HDRLEN = Some b"
  shows "split_step bo b0 =
     (case deliver bo h b (if int (len b) = uint (Len h) then uint (Len h)
                           else uint (Len h) - NLMSG_HDRLEN) of
        None \<Rightarrow> Fault []
      | Some cs \<Rightarrow> advance cs b (nlmAlignOf (uint (Len h)) - NLMSG_HDRLEN))"
  using assms dlen_never_Len[of "uint (Len h)"]
  by (simp add: split_step_def Let_def)

lemma deliver_plain:
  assumes "Type h \<noteq> NLMSG_ERROR" and "0 \<le> n" and "n \<le> int (cap b)"
  shows "deliver bo h b n =
    Some [(Type h, map (\<lambda>w. char_of (unat w)) (take (nat n) (backing b)), None)]"
  using assms by (simp add: deliver_def slice_to_def slice_range_def string_of_def)

lemma deliver_error:
  assumes "Type h = NLMSG_ERROR" and "error_code bo b = Some v" and "0 \<le> n" and "n \<le> int (cap b)"
  shows "deliver bo h b n =
    (if v \<noteq> 0 then Some [(Type h, map (\<lambda>w. char_of (unat w)) (take (nat n) (backing b)),
                          Some (ErrorReceivingEvents v))]
     else Some [])"
  using assms by (simp add: deliver_def slice_to_def slice_range_def string_of_def)

lemma split_loop_Stop: "split_step bo b = Stop \<Longrightarrow> split_loop bo b = Completed []"
  by (simp add: split_loop.simps)

lemma split_loop_Fault: "split_step bo b = Fault cs \<Longrightarrow> split_loop bo b = Panicked cs"
  by (simp add: split_loop.simps)

lemma split_loop_Next:
  "split_step bo b = Next cs b' \<Longrightarrow> split_loop bo b = prepend cs (split_loop bo b')"
  by (simp add: split_loop.simps)

lemma split_step_short: "int (len b) < NLMSG_HDRLEN \<Longrightarrow> split_step bo b = Stop"
  by (simp add: split_step_def)

lemma slice_from_header_eq:
  assumes "slice_from b0 NLMSG_HDRLEN = Some b"
  shows "NLMSG_HDRLEN \<le> int (len b0) \<and> b = Slice (drop 16 (elems b0)) (spare b0) \<and>
         int (len b) = int (len b0) - NLMSG_HDRLEN \<and> int (len b) \<le> int (cap b)"
  using assms
  by (auto simp: slice_from_def NLMSG_HDRLEN_def len_def cap_def split: if_splits)

lemma string_of_length: "length (string_of b) = len b"
  by (simp add: string_of_def len_def)

lemma take_backing_len: "take (len b) (backing b) = elems b"
  by (simp add: backing_def len_def)

section \<open>The frame splitter\<close>

text \<open>
  C8. At every step of the splitting loop, a header whose length field is below the header
  size or above the length of the remaining bytes ends the loop: the step yields no frame,
  the loop yields nothing more from this buffer, and nothing is raised: the driver goes on
  with its next read.
\<close>

theorem malformed_header_stops_splitting:
  assumes "NLMSG_HDRLEN \<le> int (len b)" and "NlMsghdr_at bo b = Some h"
    and "uint (Len h) < NLMSG_HDRLEN \<or> uint (Len h) > int (len b)"
  shows "split_step bo b = Stop \<and> split_loop bo b = Completed [] \<and>
         GetRawAuditMessages bo ((False, Inr b) # script) =
           (Receive # fst (GetRawAuditMessages bo script), snd (GetRawAuditMessages bo script))"
proof -
  have s: "split_step bo b = Stop"
    using assms by (auto simp: split_step_def)
  then show ?thesis by (simp add: split_loop_Stop)
qed

theorem malformed_header_stops_splitting_witness:
  "NLMSG_HDRLEN \<le> int (len (Slice [40,0,0,0,20,5,0,0,0,0,0,0,0,0,0,0,65,66,67,68] [])) \<and>
   NlMsghdr_at LittleEndian (Slice [40,0,0,0,20,5,0,0,0,0,0,0,0,0,0,0,65,66,67,68] []) =
     Some \<lparr>Len = 40, Type = 1300, Flags = 0, Seq = 0, Pid = 0\<rparr> \<and>
   uint (40 :: uint32) > int (len (Slice [40,0,0,0,20,5,0,0,0,0,0,0,0,0,0,0,65,66,67,68] [])) \<and>
   split_loop LittleEndian (Slice [40,0,0,0,20,5,0,0,0,0,0,0,0,0,0,0,65,66,67,68] []) = Completed [] \<and>
   GetRawAuditMessages LittleEndian
     [(False, Inr (Slice [40,0,0,0,20,5,0,0,0,0,0,0,0,0,0,0,65,66,67,68] []))] = ([Receive], Looping)"
proof -
  let ?B = "Slice [40,0,0,0,20,5,0,0,0,0,0,0,0,0,0,0,65,66,67,68] []"
  let ?h = "\<lparr>Len = 40, Type = 1300, Flags = 0, Seq = 0, Pid = 0\<rparr>"
  have l: "NLMSG_HDRLEN \<le> int (len ?B)" by (simp add: NLMSG_HDRLEN_def len_def)
  have h: "NlMsghdr_at LittleEndian ?B = Some ?h" by code_simp
  have g: "uint (Len ?h) < NLMSG_HDRLEN \<or> uint (Len ?h) > int (len ?B)" by (simp add: len_def)
  have g': "uint (40 :: uint32) > int (len ?B)" by (simp add: len_def)
  from malformed_header_stops_splitting[OF l h g, of "[]"] l h g' show ?thesis by simp
qed

text \<open>
  C9, evaluated on the code. A step whose header passes the guard of the loop, and whose
  error code can be read if it is a transport error, delivers its frame and then advances.
  When the aligned length \<open>nlmAlignOf(h.Len)\<close> does not exceed the remaining length,
  as it never does in the quirk branch, the step reaches the next iteration and the slice
  left is the old one without its first \<open>nlmAlignOf(h.Len)\<close> bytes, the least multiple
  of the alignment that is not below \<open>h.Len\<close>. The guard of the loop compares
  \<open>h.Len\<close>, not the aligned length, with the remaining length: when the aligned length
  exceeds it, the step makes its callback and panics at \<open>b = b[dlen:]\<close>, so the cursor
  does not advance for a frame that was yielded.
\<close>

theorem step_advances_by_aligned_length_or_panics:
  assumes "NlMsghdr_at bo b0 = Some h"
    and "NLMSG_HDRLEN \<le> uint (Len h)" and "uint (Len h) \<le> int (len b0)"
    and "slice_from b0 NLMSG_HDRLEN = Some b"
    and "Type h = NLMSG_ERROR \<longrightarrow> error_code bo b \<noteq> None"
  shows "(nlmAlignOf (uint (Len h)) \<le> int (len b0) \<longrightarrow>
            (\<exists>cs. split_step bo b0 =
               Next cs (Slice (drop (nat (nlmAlignOf (uint (Len h)))) (elems b0)) (spare b0)) \<and>
               split_loop bo b0 =
                 prepend cs (split_loop bo
                   (Slice (drop (nat (nlmAlignOf (uint (Len h)))) (elems b0)) (spare b0))))) \<and>
         (int (len b) = uint (Len h) \<longrightarrow> nlmAlignOf (uint (Len h)) \<le> int (len b0)) \<and>
         (int (len b0) < nlmAlignOf (uint (Len h)) \<longrightarrow>
            (\<exists>cs. split_step bo b0 = Fault cs \<and> split_loop bo b0 = Panicked cs \<and>
                  (Type h \<noteq> NLMSG_ERROR \<longrightarrow> length cs = 1))) \<and>
         uint (Len h) \<le> nlmAlignOf (uint (Len h)) \<and>
         nlmAlignOf (uint (Len h)) < uint (Len h) + NLMSG_ALIGNTO \<and>
         nlmAlignOf (uint (Len h)) mod NLMSG_ALIGNTO = 0"
proof -
  let ?L = "uint (Len h)"
  let ?a = "nlmAlignOf ?L"
  let ?n = "if int (len b) = ?L then ?L else ?L - NLMSG_HDRLEN"
  note step = split_step_guarded[OF assms(1-4)]
  have bnd: "?L \<le> ?a" "?a < ?L + 4" "?a mod 4 = 0" using nlmAlignOf_bounds[of ?L] by simp_all
  have lb: "int (len b) = int (len b0) - NLMSG_HDRLEN" and cb: "int (len b) \<le> int (cap b)"
    and bdef: "b = Slice (drop 16 (elems b0)) (spare b0)"
    using slice_from_header_eq[OF assms(4)] by blast+
  have n: "0 \<le> ?n" "?n \<le> int (cap b)" using assms(2,3) lb cb by auto
  obtain cs where d: "deliver bo h b ?n = Some cs" and c1: "Type h \<noteq> NLMSG_ERROR \<longrightarrow> length cs = 1"
  proof (cases "Type h = NLMSG_ERROR")
    case False
    from deliver_plain[OF False n, of bo] show ?thesis using that False by simp
  next
    case True
    with assms(5) obtain w where "error_code bo b = Some w" by auto
    from deliver_error[OF True this n] show ?thesis using that True by (cases "w = 0") simp_all
  qed
  have st: "split_step bo b0 = advance cs b (?a - NLMSG_HDRLEN)" using step d by simp
  have 1: "split_step bo b0 = Next cs (Slice (drop (nat ?a) (elems b0)) (spare b0))"
    if "?a \<le> int (len b0)"
  proof -
    have "0 \<le> ?a - NLMSG_HDRLEN" "?a - NLMSG_HDRLEN \<le> int (len b)"
      using that bnd(1) assms(2) lb by simp_all
    moreover have "drop (nat (?a - NLMSG_HDRLEN)) (elems b) = drop (nat ?a) (elems b0)"
      using bdef bnd(1) assms(2) by (simp add: NLMSG_HDRLEN_def nat_diff_distrib' add.commute)
    ultimately show ?thesis using st bdef by (simp add: advance_Next)
  qed
  have 2: "?a \<le> int (len b0)" if "int (len b) = ?L"
    using that lb bnd(2) by (simp add: NLMSG_HDRLEN_def)
  have 3: "split_step bo b0 = Fault cs" if "int (len b0) < ?a"
  proof -
    have "int (len b) < ?a - NLMSG_HDRLEN" using that lb by simp
    then show ?thesis using st by (simp add: advance_def slice_from_def)
  qed
  from 1 2 3 c1 bnd show ?thesis
    by (auto simp: NLMSG_ALIGNTO_def split_loop_Next split_loop_Fault)
qed

theorem step_advances_by_aligned_length_or_panics_witness:
  "split_step LittleEndian
     (Slice [18,0,0,0,20,5,0,0,0,0,0,0,0,0,0,0,65,66,0,0,
             17,0,0,0,21,5,0,0,0,0,0,0,0,0,0,0,67] []) =
     Next [(1300, ''AB'', None)] (Slice [17,0,0,0,21,5,0,0,0,0,0,0,0,0,0,0,67] []) \<and>
   nlmAlignOf 18 = 20 \<and>
   split_step LittleEndian (Slice [17,0,0,0,21,5,0,0,0,0,0,0,0,0,0,0,67] []) =
     Fault [(1301, ''C'', None)] \<and>
   int (len (Slice [17,0,0,0,21,5,0,0,0,0,0,0,0,0,0,0,67] [])) < nlmAlignOf 17 \<and>
   split_loop LittleEndian
     (Slice [18,0,0,0,20,5,0,0,0,0,0,0,0,0,0,0,65,66,0,0,
             17,0,0,0,21,5,0,0,0,0,0,0,0,0,0,0,67] []) =
     Panicked [(1300, ''AB'', None), (1301, ''C'', None)]"
proof -
  let ?B = "Slice [18,0,0,0,20,5,0,0,0,0,0,0,0,0,0,0,65,66,0,0,
                   17,0,0,0,21,5,0,0,0,0,0,0,0,0,0,0,67] []"
  let ?C = "Slice [17,0,0,0,21,5,0,0,0,0,0,0,0,0,0,0,67] []"
  let ?hb = "\<lparr>Len = 18, Type = 1300, Flags = 0, Seq = 0, Pid = 0\<rparr>"
  let ?hc = "\<lparr>Len = 17, Type = 1301, Flags = 0, Seq = 0, Pid = 0\<rparr>"
  let ?pb = "Slice [65,66,0,0,17,0,0,0,21,5,0,0,0,0,0,0,0,0,0,0,67] []"
  have hb: "NlMsghdr_at LittleEndian ?B = Some ?hb" by code_simp
  have hc: "NlMsghdr_at LittleEndian ?C = Some ?hc" by code_simp
  have gb: "NLMSG_HDRLEN \<le> uint (Len ?hb)" "uint (Len ?hb) \<le> int (len ?B)"
    by (simp_all add: NLMSG_HDRLEN_def len_def)
  have gc: "NLMSG_HDRLEN \<le> uint (Len ?hc)" "uint (Len ?hc) \<le> int (len ?C)"
    by (simp_all add: NLMSG_HDRLEN_def len_def)
  have pb: "slice_from ?B NLMSG_HDRLEN = Some ?pb" by code_simp
  have pc: "slice_from ?C NLMSG_HDRLEN = Some (Slice [67] [])" by code_simp
  have tb: "Type ?hb = NLMSG_ERROR \<longrightarrow> error_code LittleEndian ?pb \<noteq> None"
    by (simp add: NLMSG_ERROR_def)
  have tc: "Type ?hc = NLMSG_ERROR \<longrightarrow> error_code LittleEndian (Slice [67] []) \<noteq> None"
    by (simp add: NLMSG_ERROR_def)
  have a18: "nlmAlignOf 18 = 20" and a17: "nlmAlignOf 17 = 20"
    by (simp_all add: nlmAlignOf_def NLMSG_ALIGNTO_def)
  have sb: "split_step LittleEndian ?B = Next [(1300, ''AB'', None)] ?C" by code_simp
  have sc: "split_step LittleEndian ?C = Fault [(1301, ''C'', None)]" by code_simp
  from step_advances_by_aligned_length_or_panics[OF hb gb pb tb] a18 sb
  have 1: "split_loop LittleEndian ?B = prepend [(1300, ''AB'', None)] (split_loop LittleEndian ?C)"
    by (simp add: len_def)
  from step_advances_by_aligned_length_or_panics[OF hc gc pc tc] a17 sc
  have 2: "split_loop LittleEndian ?C = Panicked [(1301, ''C'', None)]"
    by (simp add: len_def)
  from 1 2 sb sc a18 a17 show ?thesis by (simp add: len_def)
qed

text \<open>
  C4. The advance \<open>b = b[dlen:]\<close> that ends the body is in bounds exactly when
  \<open>nlmAlignOf(h.Len) \<le> NLMSG_HDRLEN + len(b)\<close>, with \<open>b\<close> the slice after the
  header; a step that reaches the next iteration satisfies it. For a frame whose length
  is not a multiple of the alignment and whose buffer ends at \<open>h.Len\<close> bytes,
  \<open>dlen\<close> is above \<open>len(b)\<close>: the step panics and the loop yields no frame sequence.
\<close>

theorem advance_needs_padding:
  assumes "NlMsghdr_at bo b0 = Some h"
    and "NLMSG_HDRLEN \<le> uint (Len h)" and "uint (Len h) \<le> int (len b0)"
    and "slice_from b0 NLMSG_HDRLEN = Some b"
  shows "((\<exists>b'. advance cs b (nlmAlignOf (uint (Len h)) - NLMSG_HDRLEN) = Next cs b') \<longleftrightarrow>
            nlmAlignOf (uint (Len h)) \<le> NLMSG_HDRLEN + int (len b)) \<and>
         ((\<exists>ds b'. split_step bo b0 = Next ds b') \<longrightarrow>
            nlmAlignOf (uint (Len h)) \<le> NLMSG_HDRLEN + int (len b)) \<and>
         (uint (Len h) = int (len b0) \<and> uint (Len h) mod NLMSG_ALIGNTO \<noteq> 0 \<longrightarrow>
            int (len b) < nlmAlignOf (uint (Len h)) - NLMSG_HDRLEN \<and>
            (\<exists>ds. split_step bo b0 = Fault ds \<and> split_loop bo b0 = Panicked ds))"
proof -
  let ?a = "nlmAlignOf (uint (Len h))"
  note step = split_step_guarded[OF assms]
  have a: "uint (Len h) \<le> ?a" using nlmAlignOf_bounds[of "uint (Len h)"] by simp
  have 1: "(\<exists>b'. advance cs b (?a - NLMSG_HDRLEN) = Next cs b') \<longleftrightarrow> ?a \<le> NLMSG_HDRLEN + int (len b)"
    for cs :: "'x list"
    using a assms(2) by (auto simp: advance_Next)
  have 2: "?a \<le> NLMSG_HDRLEN + int (len b)" if "split_step bo b0 = Next ds b'" for ds b'
    using that a assms(2) unfolding step by (auto simp: advance_Next split: option.splits)
  have 3: "int (len b) < ?a - NLMSG_HDRLEN \<and>
           (\<exists>ds. split_step bo b0 = Fault ds \<and> split_loop bo b0 = Panicked ds)"
    if eq: "uint (Len h) = int (len b0)" and un: "uint (Len h) mod NLMSG_ALIGNTO \<noteq> 0"
  proof -
    have "uint (Len h) < ?a"
      using un nlmAlignOf_unaligned[of "uint (Len h)"] by (simp add: NLMSG_ALIGNTO_def)
    moreover have "int (len b) = int (len b0) - NLMSG_HDRLEN"
      using slice_from_header_eq[OF assms(4)] by blast
    ultimately have lt: "int (len b) < ?a - NLMSG_HDRLEN"
      using eq by linarith
    then have "advance ds b (?a - NLMSG_HDRLEN) = Fault ds" for ds :: "raw_type_call list"
      by (simp add: advance_def slice_from_def)
    then obtain ds where "split_step bo b0 = Fault ds"
      unfolding step by (cases "deliver bo h b (if int (len b) = uint (Len h) then uint (Len h)
                           else uint (Len h) - NLMSG_HDRLEN)") auto
    then show ?thesis using lt by (auto simp: split_loop_Fault)
  qed
  from 1 2 3 show ?thesis by blast
qed

theorem advance_needs_padding_witness:
  "NlMsghdr_at LittleEndian (Slice [17,0,0,0,20,5,0,0,0,0,0,0,0,0,0,0,65] []) =
     Some \<lparr>Len = 17, Type = 1300, Flags = 0, Seq = 0, Pid = 0\<rparr> \<and>
   slice_from (Slice [17,0,0,0,20,5,0,0,0,0,0,0,0,0,0,0,65] []) NLMSG_HDRLEN = Some (Slice [65] []) \<and>
   int (len (Slice [65] [])) < nlmAlignOf 17 - NLMSG_HDRLEN \<and>
   split_step LittleEndian (Slice [17,0,0,0,20,5,0,0,0,0,0,0,0,0,0,0,65] []) = Fault [(1300, ''A'', None)] \<and>
   split_loop LittleEndian (Slice [17,0,0,0,20,5,0,0,0,0,0,0,0,0,0,0,65] []) = Panicked [(1300, ''A'', None)]"
proof -
  let ?B = "Slice [17,0,0,0,20,5,0,0,0,0,0,0,0,0,0,0,65] []"
  let ?h = "\<lparr>Len = 17, Type = 1300, Flags = 0, Seq = 0, Pid = 0\<rparr>"
  have h: "NlMsghdr_at LittleEndian ?B = Some ?h" by code_simp
  have g1: "NLMSG_HDRLEN \<le> uint (Len ?h)" by (simp add: NLMSG_HDRLEN_def)
  have g2: "uint (Len ?h) \<le> int (len ?B)" by (simp add: len_def)
  have p: "slice_from ?B NLMSG_HDRLEN = Some (Slice [65] [])" by code_simp
  have f: "split_step LittleEndian ?B = Fault [(1300, ''A'', None)]" by code_simp
  have e: "uint (Len ?h) = int (len ?B) \<and> uint (Len ?h) mod NLMSG_ALIGNTO \<noteq> 0"
    by (simp add: len_def NLMSG_ALIGNTO_def)
  from advance_needs_padding[OF h g1 g2 p] e
  have "int (len (Slice [65] [])) < nlmAlignOf (uint (Len ?h)) - NLMSG_HDRLEN \<and>
        (\<exists>ds. split_step LittleEndian ?B = Fault ds \<and> split_loop LittleEndian ?B = Panicked ds)"
    by blast
  with h p f show ?thesis by auto
qed

text \<open>
  C2, as amended. The test of the quirk branch, \<open>len(b) == int(h.Len) || dlen == int(h.Len)\<close>,
  is made on the slice after the header. Its second half never holds, since
  \<open>nlmAlignOf(h.Len) < h.Len + 4\<close>. When it holds, the step does not panic and the text of
  every call it makes is \<open>string(b[:h.Len])\<close>, the whole slice after the header: the
  \<open>h.Len\<close> bytes \<open>[NLMSG_HDRLEN : NLMSG_HDRLEN + h.Len]\<close> of the remaining buffer, not
  \<open>h.Len - NLMSG_HDRLEN\<close> bytes. A frame that is not a transport error makes exactly one
  such call.
\<close>

theorem quirk_payload_is_whole_remainder:
  assumes "NlMsghdr_at bo b0 = Some h"
    and "NLMSG_HDRLEN \<le> uint (Len h)" and "uint (Len h) \<le> int (len b0)"
    and "slice_from b0 NLMSG_HDRLEN = Some b"
    and "int (len b) = uint (Len h) \<or> nlmAlignOf (uint (Len h)) - NLMSG_HDRLEN = uint (Len h)"
  shows "\<exists>cs b'. split_step bo b0 = Next cs b' \<and>
           (\<forall>(t, txt, e) \<in> set cs.
              t = Type h \<and> txt = string_of b \<and> int (length txt) = uint (Len h)) \<and>
           (Type h \<noteq> NLMSG_ERROR \<longrightarrow> cs = [(Type h, string_of b, None)])"
proof -
  let ?L = "uint (Len h)"
  let ?d = "nlmAlignOf ?L - NLMSG_HDRLEN"
  from assms(5) have q: "int (len b) = ?L" using dlen_never_Len[of ?L] by simp
  have step: "split_step bo b0 =
      (case deliver bo h b ?L of None \<Rightarrow> Fault [] | Some cs \<Rightarrow> advance cs b ?d)"
    using split_step_guarded[OF assms(1-4)] q by simp
  have capb: "?L \<le> int (cap b)" using q by (simp add: cap_def len_def)
  have L0: "0 \<le> ?L" by simp
  have natL: "nat ?L = len b" using arg_cong[OF q, of nat] by simp
  have tx: "map (\<lambda>w. char_of (unat w)) (take (nat ?L) (backing b)) = string_of b"
    unfolding natL by (simp add: take_backing_len string_of_def)
  have dl: "0 \<le> ?d" "?d \<le> int (len b)"
    using nlmAlignOf_bounds[of ?L] assms(2) q by (simp_all add: NLMSG_HDRLEN_def)
  have adv: "advance cs b ?d = Next cs (Slice (drop (nat ?d) (elems b)) (spare b))"
    for cs :: "raw_type_call list"
    using dl by (simp add: advance_Next)
  have len_txt: "int (length (string_of b)) = ?L" using q by (simp add: string_of_length)
  show ?thesis
  proof (cases "Type h = NLMSG_ERROR")
    case False
    have "deliver bo h b ?L = Some [(Type h, string_of b, None)]"
      using deliver_plain[OF False L0 capb, of bo] tx by simp
    then show ?thesis using step adv len_txt False by simp
  next
    case True
    have "\<not> cap b < 4" using capb assms(2) by (simp add: NLMSG_HDRLEN_def)
    then obtain v where v: "error_code bo b = Some v"
      using error_code_None[of bo b] by (cases "error_code bo b") auto
    have "deliver bo h b ?L =
        (if v \<noteq> 0 then Some [(Type h, string_of b, Some (ErrorReceivingEvents v))] else Some [])"
      using deliver_error[OF True v L0 capb] tx by simp
    then show ?thesis using step adv len_txt True by (cases "v = 0") simp_all
  qed
qed

theorem quirk_payload_is_whole_remainder_witness:
  "slice_from (Slice [20,0,0,0,20,5,0,0,0,0,0,0,0,0,0,0,
                      65,66,67,68,69,70,71,72,73,74,75,76,77,78,79,80,81,82,83,84] []) NLMSG_HDRLEN =
     Some (Slice [65,66,67,68,69,70,71,72,73,74,75,76,77,78,79,80,81,82,83,84] []) \<and>
   int (len (Slice [65,66,67,68,69,70,71,72,73,74,75,76,77,78,79,80,81,82,83,84] [])) = uint (20 :: uint32) \<and>
   (\<exists>b'. split_step LittleEndian (Slice [20,0,0,0,20,5,0,0,0,0,0,0,0,0,0,0,
                      65,66,67,68,69,70,71,72,73,74,75,76,77,78,79,80,81,82,83,84] []) =
     Next [(1300, ''ABCDEFGHIJKLMNOPQRST'', None)] b')"
proof -
  let ?B = "Slice [20,0,0,0,20,5,0,0,0,0,0,0,0,0,0,0,
                      65,66,67,68,69,70,71,72,73,74,75,76,77,78,79,80,81,82,83,84] []"
  let ?P = "Slice [65,66,67,68,69,70,71,72,73,74,75,76,77,78,79,80,81,82,83,84] []"
  let ?h = "\<lparr>Len = 20, Type = 1300, Flags = 0, Seq = 0, Pid = 0\<rparr>"
  have h: "NlMsghdr_at LittleEndian ?B = Some ?h" by code_simp
  have g1: "NLMSG_HDRLEN \<le> uint (Len ?h)" by (simp add: NLMSG_HDRLEN_def)
  have g2: "uint (Len ?h) \<le> int (len ?B)" by (simp add: len_def)
  have p: "slice_from ?B NLMSG_HDRLEN = Some ?P" by code_simp
  have q: "int (len ?P) = uint (Len ?h) \<or> nlmAlignOf (uint (Len ?h)) - NLMSG_HDRLEN = uint (Len ?h)"
    by (simp add: len_def)
  have t: "Type ?h \<noteq> NLMSG_ERROR" by (simp add: NLMSG_ERROR_def)
  have s: "string_of ?P = ''ABCDEFGHIJKLMNOPQRST''" by code_simp
  from quirk_payload_is_whole_remainder[OF h g1 g2 p q] t s
  have "\<exists>b'. split_step LittleEndian ?B = Next [(1300, ''ABCDEFGHIJKLMNOPQRST'', None)] b'"
    by auto
  moreover have "int (len ?P) = uint (20 :: uint32)" by (simp add: len_def)
  ultimately show ?thesis using p by simp
qed

text \<open>
  C2 as stated fails: a 36-byte buffer whose header has \<open>Len = 20\<close> meets the test of the
  quirk branch and its callback gets the 20 bytes after the header, while bytes
  \<open>[NLMSG_HDRLEN : h.Len]\<close> of the frame are the first 4 of them.
\<close>

theorem quirk_payload_counterexample:
  "NlMsghdr_at LittleEndian (Slice [20,0,0,0,20,5,0,0,0,0,0,0,0,0,0,0,
       65,66,67,68,69,70,71,72,73,74,75,76,77,78,79,80,81,82,83,84] []) =
     Some \<lparr>Len = 20, Type = 1300, Flags = 0, Seq = 0, Pid = 0\<rparr> \<and>
   slice_from (Slice [20,0,0,0,20,5,0,0,0,0,0,0,0,0,0,0,
       65,66,67,68,69,70,71,72,73,74,75,76,77,78,79,80,81,82,83,84] []) NLMSG_HDRLEN =
     Some (Slice [65,66,67,68,69,70,71,72,73,74,75,76,77,78,79,80,81,82,83,84] []) \<and>
   int (len (Slice [65,66,67,68,69,70,71,72,73,74,75,76,77,78,79,80,81,82,83,84] [])) = uint (20 :: uint32) \<and>
   split_step LittleEndian (Slice [20,0,0,0,20,5,0,0,0,0,0,0,0,0,0,0,
       65,66,67,68,69,70,71,72,73,74,75,76,77,78,79,80,81,82,83,84] []) =
     Next [(1300, ''ABCDEFGHIJKLMNOPQRST'', None)]
          (Slice [69,70,71,72,73,74,75,76,77,78,79,80,81,82,83,84] []) \<and>
   map_option string_of (slice_range (Slice [20,0,0,0,20,5,0,0,0,0,0,0,0,0,0,0,
       65,66,67,68,69,70,71,72,73,74,75,76,77,78,79,80,81,82,83,84] []) NLMSG_HDRLEN (uint (20 :: uint32))) =
     Some ''ABCD'' \<and>
   ''ABCDEFGHIJKLMNOPQRST'' \<noteq> ''ABCD'' \<and>
   length ''ABCDEFGHIJKLMNOPQRST'' \<noteq> nat (uint (20 :: uint32) - NLMSG_HDRLEN)"
  by code_simp

text \<open>
  C3, as amended. For a buffer that is one frame whose header length equals the buffer
  length, whatever that length: the calls the loop makes are exactly one call whose text is
  the whole slice after the header, for a frame that is not a transport error (with a nil
  error) and for a transport error with a nonzero code (with the error that carries the
  code), and no call for a transport error with code 0. When the length is a multiple of
  the alignment (and the code of a transport error can be read) the loop completes after
  them.
\<close>

theorem single_frame_delivers_whole_remainder:
  assumes "NlMsghdr_at bo b0 = Some h"
    and "NLMSG_HDRLEN \<le> int (len b0)" and "uint (Len h) = int (len b0)"
    and "slice_from b0 NLMSG_HDRLEN = Some b"
  shows "(Type h \<noteq> NLMSG_ERROR \<longrightarrow>
            calls (split_loop bo b0) = [(Type h, string_of b, None)]) \<and>
         (Type h = NLMSG_ERROR \<and> error_code bo b = Some v \<and> v \<noteq> 0 \<longrightarrow>
            calls (split_loop bo b0) = [(Type h, string_of b, Some (ErrorReceivingEvents v))]) \<and>
         (Type h = NLMSG_ERROR \<and> error_code bo b = Some 0 \<longrightarrow>
            calls (split_loop bo b0) = []) \<and>
         (uint (Len h) mod NLMSG_ALIGNTO = 0 \<and> (Type h = NLMSG_ERROR \<longrightarrow> error_code bo b \<noteq> None) \<longrightarrow>
            (\<exists>cs. split_loop bo b0 = Completed cs))"
proof -
  let ?L = "uint (Len h)"
  let ?d = "nlmAlignOf ?L - NLMSG_HDRLEN"
  have g1: "NLMSG_HDRLEN \<le> ?L" and g2: "?L \<le> int (len b0)" using assms(2,3) by simp_all
  have lb: "int (len b) = int (len b0) - NLMSG_HDRLEN"
    using slice_from_header_eq[OF assms(4)] by blast
  have nq: "int (len b) \<noteq> ?L" using lb assms(3) by (simp add: NLMSG_HDRLEN_def)
  have n: "?L - NLMSG_HDRLEN = int (len b)" using lb assms(3) by simp
  have step: "split_step bo b0 =
      (case deliver bo h b (int (len b)) of None \<Rightarrow> Fault [] | Some cs \<Rightarrow> advance cs b ?d)"
    using split_step_guarded[OF assms(1) g1 g2 assms(4)] nq n by simp
  have dge: "int (len b) \<le> ?d" using nlmAlignOf_bounds[of ?L] n by linarith
  have fin: "split_loop bo (Slice [] (spare b)) = Completed []"
    by (rule split_loop_Stop) (simp add: split_step_short len_def NLMSG_HDRLEN_def)
  have adv: "advance cs b ?d = (if ?d = int (len b) then Next cs (Slice [] (spare b)) else Fault cs)"
    for cs :: "raw_type_call list"
  proof (cases "?d = int (len b)")
    case True
    then show ?thesis by (simp add: advance_Next len_def)
  next
    case False
    with dge have "int (len b) < ?d" by linarith
    then show ?thesis using False by (simp add: advance_def slice_from_def)
  qed
  have loop: "split_loop bo b0 = (if ?d = int (len b) then Completed cs else Panicked cs)"
    if "deliver bo h b (int (len b)) = Some cs" for cs
    using that step adv[of cs] fin by (simp add: split_loop_Next split_loop_Fault)
  have n0: "0 \<le> int (len b)" and nc: "int (len b) \<le> int (cap b)"
    by (simp_all add: len_def cap_def)
  have tx: "map (\<lambda>w. char_of (unat w)) (take (nat (int (len b))) (backing b)) = string_of b"
    by (simp add: take_backing_len string_of_def)
  have dp: "deliver bo h b (int (len b)) = Some [(Type h, string_of b, None)]"
    if "Type h \<noteq> NLMSG_ERROR"
    using deliver_plain[OF that n0 nc, of bo] tx by simp
  have de: "deliver bo h b (int (len b)) =
      (if w \<noteq> 0 then Some [(Type h, string_of b, Some (ErrorReceivingEvents w))] else Some [])"
    if "Type h = NLMSG_ERROR" "error_code bo b = Some w" for w
    using deliver_error[OF that n0 nc] tx by simp
  have 1: "calls (split_loop bo b0) = [(Type h, string_of b, None)]" if "Type h \<noteq> NLMSG_ERROR"
    using loop[OF dp[OF that]] by simp
  have 2: "calls (split_loop bo b0) = [(Type h, string_of b, Some (ErrorReceivingEvents v))]"
    if "Type h = NLMSG_ERROR" "error_code bo b = Some v" "v \<noteq> 0"
    using loop[of "[(Type h, string_of b, Some (ErrorReceivingEvents v))]"] de[OF that(1,2)] that(3)
    by simp
  have 3: "calls (split_loop bo b0) = []" if "Type h = NLMSG_ERROR" "error_code bo b = Some 0"
    using loop[of "[]"] de[OF that] by simp
  have 4: "\<exists>ds. split_loop bo b0 = Completed ds"
    if al: "?L mod NLMSG_ALIGNTO = 0" and rd: "Type h = NLMSG_ERROR \<longrightarrow> error_code bo b \<noteq> None"
  proof -
    have "nlmAlignOf ?L = ?L" using al by (simp add: nlmAlignOf_aligned NLMSG_ALIGNTO_def)
    then have d: "?d = int (len b)" using n by simp
    obtain cs where "deliver bo h b (int (len b)) = Some cs"
    proof (cases "Type h = NLMSG_ERROR")
      case False
      then show ?thesis using dp that by blast
    next
      case True
      with rd obtain w where "error_code bo b = Some w" by auto
      then show ?thesis using de[OF True] that by (cases "w = 0") auto
    qed
    then show ?thesis using loop d by simp
  qed
  from 1 2 3 4 show ?thesis by (intro conjI impI; (elim conjE)?) simp_all
qed

theorem single_frame_delivers_whole_remainder_witness:
  "NlMsghdr_at LittleEndian (Slice [18,0,0,0,20,5,0,0,0,0,0,0,0,0,0,0,65,66] []) =
     Some \<lparr>Len = 18, Type = 1300, Flags = 0, Seq = 0, Pid = 0\<rparr> \<and>
   uint (18 :: uint32) = int (len (Slice [18,0,0,0,20,5,0,0,0,0,0,0,0,0,0,0,65,66] [])) \<and>
   calls (split_loop LittleEndian (Slice [18,0,0,0,20,5,0,0,0,0,0,0,0,0,0,0,65,66] [])) =
     [(1300, ''AB'', None)] \<and>
   NlMsghdr_at LittleEndian (Slice [20,0,0,0,20,5,0,0,0,0,0,0,0,0,0,0,65,66,67,68] []) =
     Some \<lparr>Len = 20, Type = 1300, Flags = 0, Seq = 0, Pid = 0\<rparr> \<and>
   uint (20 :: uint32) = int (len (Slice [20,0,0,0,20,5,0,0,0,0,0,0,0,0,0,0,65,66,67,68] [])) \<and>
   uint (20 :: uint32) mod NLMSG_ALIGNTO = 0 \<and>
   split_loop LittleEndian (Slice [20,0,0,0,20,5,0,0,0,0,0,0,0,0,0,0,65,66,67,68] []) =
     Completed [(1300, ''ABCD'', None)]"
proof -
  let ?A = "Slice [18,0,0,0,20,5,0,0,0,0,0,0,0,0,0,0,65,66] []"
  let ?a = "\<lparr>Len = 18, Type = 1300, Flags = 0, Seq = 0, Pid = 0\<rparr>"
  let ?B = "Slice [20,0,0,0,20,5,0,0,0,0,0,0,0,0,0,0,65,66,67,68] []"
  let ?h = "\<lparr>Len = 20, Type = 1300, Flags = 0, Seq = 0, Pid = 0\<rparr>"
  have ha: "NlMsghdr_at LittleEndian ?A = Some ?a" by code_simp
  have la: "NLMSG_HDRLEN \<le> int (len ?A)" by (simp add: NLMSG_HDRLEN_def len_def)
  have ea: "uint (Len ?a) = int (len ?A)" by (simp add: len_def)
  have pa: "slice_from ?A NLMSG_HDRLEN = Some (Slice [65,66] [])" by code_simp
  have ta: "Type ?a \<noteq> NLMSG_ERROR" by (simp add: NLMSG_ERROR_def)
  have sa: "string_of (Slice [65,66] []) = ''AB''" by code_simp
  have h: "NlMsghdr_at LittleEndian ?B = Some ?h" by code_simp
  have l: "NLMSG_HDRLEN \<le> int (len ?B)" by (simp add: NLMSG_HDRLEN_def len_def)
  have e: "uint (Len ?h) = int (len ?B)" by (simp add: len_def)
  have m: "uint (Len ?h) mod NLMSG_ALIGNTO = 0" by (simp add: NLMSG_ALIGNTO_def)
  have p: "slice_from ?B NLMSG_HDRLEN = Some (Slice [65,66,67,68] [])" by code_simp
  have t: "Type ?h \<noteq> NLMSG_ERROR" by (simp add: NLMSG_ERROR_def)
  have s: "string_of (Slice [65,66,67,68] []) = ''ABCD''" by code_simp
  from single_frame_delivers_whole_remainder[OF ha la ea pa] ta sa
  have 1: "calls (split_loop LittleEndian ?A) = [(1300, ''AB'', None)]" by simp
  from single_frame_delivers_whole_remainder[OF h l e p] t s
  have c: "calls (split_loop LittleEndian ?B) = [(1300, ''ABCD'', None)]" by simp
  from single_frame_delivers_whole_remainder[OF h l e p] t m
  obtain cs where k: "split_loop LittleEndian ?B = Completed cs" by auto
  have 2: "split_loop LittleEndian ?B = Completed [(1300, ''ABCD'', None)]"
    using c unfolding k by simp
  from 1 2 ha h ea e m show ?thesis by simp
qed

text \<open>
  C3 as stated fails: a 20-byte buffer that is one transport-error frame with
  \<open>Len = 20\<close> and code 0 makes the loop complete without any call.
\<close>

theorem single_frame_counterexample:
  "NlMsghdr_at LittleEndian (Slice [20,0,0,0,2,0,0,0,0,0,0,0,0,0,0,0,0,0,0,0] []) =
     Some \<lparr>Len = 20, Type = NLMSG_ERROR, Flags = 0, Seq = 0, Pid = 0\<rparr> \<and>
   uint (20 :: uint32) = int (len (Slice [20,0,0,0,2,0,0,0,0,0,0,0,0,0,0,0,0,0,0,0] [])) \<and>
   split_loop LittleEndian (Slice [20,0,0,0,2,0,0,0,0,0,0,0,0,0,0,0,0,0,0,0] []) = Completed [] \<and>
   calls (split_loop LittleEndian (Slice [20,0,0,0,2,0,0,0,0,0,0,0,0,0,0,0,0,0,0,0] [])) = []"
  by code_simp

section \<open>Transport-error frames\<close>

lemma Uint32_take: "4 \<le> length xs \<Longrightarrow> Uint32 bo (take 4 xs) = Uint32 bo xs"
  by (induction bo xs rule: Uint32.induct) auto

lemma error_code_eq:
  "error_code bo d = (if cap d < 4 then None else map_option sint (Uint32 bo (backing d)))"
proof (cases "cap d < 4")
  case True
  then show ?thesis by (simp add: error_code_None)
next
  case False
  then have l: "4 \<le> length (backing d)" by (simp add: cap_def backing_def)
  have "slice_range d 0 4 = Some (Slice (take 4 (backing d)) (drop 4 (backing d)))"
    using False by (simp add: slice_range_def)
  then show ?thesis using False Uint32_take[OF l, of bo]
    by (simp add: error_code_def split: option.splits)
qed

lemma cap_after_header:
  "slice_from b0 NLMSG_HDRLEN = Some b \<Longrightarrow> int (cap b) = int (cap b0) - NLMSG_HDRLEN"
  by (auto simp: slice_from_def cap_def len_def NLMSG_HDRLEN_def split: if_splits)

text \<open>
  C5, as amended. The code is read by \<open>d[0:4]\<close> with no check before it, and Go bounds
  a slice expression on a slice by the capacity, not by the length. So the code is defined
  exactly when the capacity of the body is at least 4; with at least 4 bytes in the body it
  is the signed value of their \<open>Uint32\<close>. For a transport-error frame whose body has a
  capacity below 4 (a header-only frame at the very end of the backing array), every driver
  panics before any callback for the frame.
\<close>

theorem error_code_needs_capacity:
  "(error_code bo d = None \<longleftrightarrow> cap d < 4) \<and>
   (4 \<le> len d \<longrightarrow> error_code bo d = map_option sint (Uint32 bo (elems d))) \<and>
   (Type (Header msg) = NLMSG_ERROR \<and> cap (Data msg) < 4 \<longrightarrow>
      dispatch_event bo parse msg = Panicked [] \<and> dispatch_raw bo name msg = Panicked []) \<and>
   (NlMsghdr_at bo b0 = Some h \<and> Type h = NLMSG_ERROR \<and> NLMSG_HDRLEN \<le> uint (Len h) \<and>
    uint (Len h) \<le> int (len b0) \<and> int (cap b0) < NLMSG_HDRLEN + 4 \<longrightarrow>
      split_step bo b0 = Fault [] \<and> split_loop bo b0 = Panicked [])"
proof -
  have a: "error_code bo d = None \<longleftrightarrow> cap d < 4" by (rule error_code_None)
  have b: "error_code bo d = map_option sint (Uint32 bo (elems d))" if "4 \<le> len d"
  proof -
    have "Uint32 bo (backing d) = Uint32 bo (elems d)"
      using that Uint32_take[of "backing d" bo] Uint32_take[of "elems d" bo]
      by (simp add: backing_def len_def)
    then show ?thesis using that by (simp add: error_code_eq cap_def len_def)
  qed
  have c: "dispatch_event bo parse msg = Panicked [] \<and> dispatch_raw bo name msg = Panicked []"
    if "Type (Header msg) = NLMSG_ERROR" "cap (Data msg) < 4"
    using that by (simp add: dispatch_event_def dispatch_raw_def error_code_eq)
  have d: "split_step bo b0 = Fault [] \<and> split_loop bo b0 = Panicked []"
    if h: "NlMsghdr_at bo b0 = Some h" and t: "Type h = NLMSG_ERROR"
      and g1: "NLMSG_HDRLEN \<le> uint (Len h)" and g2: "uint (Len h) \<le> int (len b0)"
      and c: "int (cap b0) < NLMSG_HDRLEN + 4"
  proof -
    let ?b = "Slice (drop 16 (elems b0)) (spare b0)"
    have p: "slice_from b0 NLMSG_HDRLEN = Some ?b"
      using g1 g2 by (intro slice_from_header) simp
    have "int (cap ?b) < 4" using cap_after_header[OF p] c by simp
    then have "error_code bo ?b = None" by (simp add: error_code_None)
    then have "deliver bo h ?b n = None" for n using t by (simp add: deliver_def)
    then have "split_step bo b0 = Fault []"
      unfolding split_step_guarded[OF h g1 g2 p] by simp
    then show ?thesis by (simp add: split_loop_Fault)
  qed
  from a b c d show ?thesis by blast
qed

theorem error_code_needs_capacity_witness:
  "Type (Header \<lparr>Header = \<lparr>Len = 16, Type = NLMSG_ERROR, Flags = 0, Seq = 0, Pid = 0\<rparr>,
                 Data = Slice [] [0,0,0]\<rparr>) = NLMSG_ERROR \<and>
   cap (Data \<lparr>Header = \<lparr>Len = 16, Type = NLMSG_ERROR, Flags = 0, Seq = 0, Pid = 0\<rparr>,
              Data = Slice [] [0,0,0]\<rparr>) < 4 \<and>
   error_code LittleEndian (Slice [] [0,0,0]) = None \<and>
   error_code LittleEndian (Slice [5,0,0,0,9] []) = Some 5 \<and>
   split_loop LittleEndian (Slice [16,0,0,0,2,0,0,0,0,0,0,0,0,0,0,0] [0,0,0]) = Panicked []"
proof -
  let ?m = "\<lparr>Header = \<lparr>Len = 16, Type = NLMSG_ERROR, Flags = 0, Seq = 0, Pid = 0\<rparr>,
             Data = Slice [] [0,0,0]\<rparr>"
  let ?B = "Slice [16,0,0,0,2,0,0,0,0,0,0,0,0,0,0,0] [0,0,0]"
  let ?h = "\<lparr>Len = 16, Type = 2, Flags = 0, Seq = 0, Pid = 0\<rparr>"
  have c: "cap (Slice [] [0,0,0]) < 4" by (simp add: cap_def)
  have l: "4 \<le> len (Slice [5,0,0,0,9] [])" by (simp add: len_def)
  have u: "map_option sint (Uint32 LittleEndian (elems (Slice [5,0,0,0,9] []))) = Some 5"
    by code_simp
  have h: "NlMsghdr_at LittleEndian ?B = Some ?h" by code_simp
  have g: "Type ?h = NLMSG_ERROR \<and> NLMSG_HDRLEN \<le> uint (Len ?h) \<and>
           uint (Len ?h) \<le> int (len ?B) \<and> int (cap ?B) < NLMSG_HDRLEN + 4"
    by (simp add: NLMSG_ERROR_def NLMSG_HDRLEN_def len_def cap_def)
  note t1 = error_code_needs_capacity[of LittleEndian "Slice [] [0,0,0]" ?m undefined undefined ?B ?h]
  note t2 = error_code_needs_capacity[of LittleEndian "Slice [5,0,0,0,9] []" ?m undefined undefined ?B ?h]
  from t1 c have 1: "error_code LittleEndian (Slice [] [0,0,0]) = None" by blast
  from t2 l u have 2: "error_code LittleEndian (Slice [5,0,0,0,9] []) = Some 5" by simp
  from t1 h g have 3: "split_loop LittleEndian ?B = Panicked []" by blast
  from 1 2 3 c show ?thesis by simp
qed

text \<open>
  C5 as stated fails: an empty body followed by 4 bytes of spare capacity has fewer than 4
  bytes, and its code is read from the spare bytes; the splitting loop delivers it.
\<close>

theorem error_code_short_body_counterexample:
  "len (Slice [] [1,0,0,0]) < 4 \<and>
   error_code LittleEndian (Slice [] [1,0,0,0]) = Some 1 \<and>
   NlMsghdr_at LittleEndian (Slice [16,0,0,0,2,0,0,0,0,0,0,0,0,0,0,0] [1,0,0,0]) =
     Some \<lparr>Len = 16, Type = NLMSG_ERROR, Flags = 0, Seq = 0, Pid = 0\<rparr> \<and>
   split_loop LittleEndian (Slice [16,0,0,0,2,0,0,0,0,0,0,0,0,0,0,0] [1,0,0,0]) =
     Completed [(NLMSG_ERROR, [], Some (ErrorReceivingEvents 1))]"
  by code_simp

text \<open>
  What the three other drivers do with a transport-error frame whose code can be read: no
  call for code 0, one call carrying the code otherwise.
\<close>

lemma error_frame_dispatch_event:
  assumes "Type (Header msg) = NLMSG_ERROR" and "error_code bo (Data msg) = Some v"
  shows "dispatch_event bo parse msg =
           (if v = 0 then Completed [] else Completed [(None, Some (ErrorReceivingEvents v))])"
  using assms by (simp add: dispatch_event_def)

lemma error_frame_split_step:
  assumes "NlMsghdr_at bo b0 = Some h" and "Type h = NLMSG_ERROR"
    and "split_step bo b0 = Next cs b' \<or> split_step bo b0 = Fault cs"
    and "slice_from b0 NLMSG_HDRLEN = Some b" and "error_code bo b = Some v"
  shows "if v = 0 then cs = [] else \<exists>s. cs = [(Type h, s, Some (ErrorReceivingEvents v))]"
proof -
  from assms(3) have ns: "split_step bo b0 \<noteq> Stop" by auto
  then have l: "\<not> int (len b0) < NLMSG_HDRLEN" by (auto simp: split_step_def)
  from ns assms(1) l have g: "NLMSG_HDRLEN \<le> uint (Len h)" "uint (Len h) \<le> int (len b0)"
    by (auto simp: split_step_def split: if_splits)
  let ?n = "if int (len b) = uint (Len h) then uint (Len h) else uint (Len h) - NLMSG_HDRLEN"
  note step = split_step_guarded[OF assms(1) g assms(4)]
  have lb: "int (len b) = int (len b0) - NLMSG_HDRLEN" and cb: "int (len b) \<le> int (cap b)"
    using slice_from_header_eq[OF assms(4)] by blast+
  have n: "0 \<le> ?n" "?n \<le> int (cap b)" using g lb cb by auto
  have d: "deliver bo h b ?n =
      (if v \<noteq> 0 then Some [(Type h, map (\<lambda>w. char_of (unat w)) (take (nat ?n) (backing b)),
                            Some (ErrorReceivingEvents v))]
       else Some [])"
    by (rule deliver_error[OF assms(2,5) n])
  show ?thesis
  proof (cases "v = 0")
    case True
    with d step assms(3) show ?thesis by (auto simp: advance_def split: option.splits)
  next
    case False
    with d step assms(3) show ?thesis by (auto simp: advance_def split: option.splits)
  qed
qed

text \<open>
  C1, evaluated for \<open>GetRawAuditEvents\<close>: a transport-error frame with code 0 gets one
  callback, with the empty text and a nil error, and one with code -1 gets two, the second
  with a nil error. The call \<open>cb(m, err, args...)\<close> that ends the body of the loop is
  outside the \<open>if\<close>.
\<close>

theorem raw_events_error_frame_extra_callback:
  "dispatch_raw LittleEndian name
     \<lparr>Header = \<lparr>Len = 20, Type = NLMSG_ERROR, Flags = 0, Seq = 0, Pid = 0\<rparr>,
      Data = Slice [0,0,0,0] []\<rparr> = Completed [([], None)] \<and>
   dispatch_raw LittleEndian name
     \<lparr>Header = \<lparr>Len = 20, Type = NLMSG_ERROR, Flags = 0, Seq = 0, Pid = 0\<rparr>,
      Data = Slice [255,255,255,255] []\<rparr> =
     Completed [([], Some (ErrorReceivingEvents (- 1))), ([], None)] \<and>
   GetRawAuditEvents LittleEndian name
     [Inr [\<lparr>Header = \<lparr>Len = 20, Type = NLMSG_ERROR, Flags = 0, Seq = 0, Pid = 0\<rparr>,
           Data = Slice [0,0,0,0] []\<rparr>]] = ([Receive, Callback ([], None)], Looping)"
proof -
  have 0: "error_code LittleEndian (Slice [0,0,0,0] []) = Some 0" by code_simp
  have 1: "error_code LittleEndian (Slice [255,255,255,255] []) = Some (- 1)" by code_simp
  show ?thesis by (simp add: dispatch_raw_def 0 1)
qed

section \<open>The parsed-output path\<close>




section \<open>The driver loops: read errors and cancellation\<close>

lemma receives_cycle:
  "receives (cycle (Completed cs) rest) = Suc (receives rest)"
  "receives (cycle (Panicked cs) rest) = Suc 0"
  by (simp_all add: receives_def filter_map comp_def)

lemma snd_cycle:
  "snd (cycle (Completed cs) rest) = snd rest"
  "snd (cycle (Panicked cs) rest) = Crashed"
  by simp_all








lemma GetRawAuditMessages_cancel:
  "k < length script \<Longrightarrow> fst (script ! k) \<Longrightarrow>
   receives (GetRawAuditMessages bo script) \<le> k \<and> snd (GetRawAuditMessages bo script) \<noteq> Looping"
proof (induction script arbitrary: k)
  case Nil
  then show ?case by simp
next
  case (Cons dr script)
  obtain d r where dr: "dr = (d, r)" by (cases dr)
  show ?case
  proof (cases d)
    case True
    then show ?thesis using dr by (simp add: receives_def)
  next
    case False
    with Cons.prems dr obtain j where k: "k = Suc j" by (cases k) auto
    with Cons.prems have "j < length script" "fst (script ! j)" by simp_all
    then have IH: "receives (GetRawAuditMessages bo script) \<le> j"
      "snd (GetRawAuditMessages bo script) \<noteq> Looping"
      using Cons.IH by blast+
    show ?thesis using False dr k IH
      by (cases "on_success (split_loop bo) r")
         (simp_all del: cycle.simps add: receives_cycle snd_cycle)
  qed
qed

lemma GetAuditMessages_cancel:
  "k < length script \<Longrightarrow> fst (script ! k) \<Longrightarrow>
   receives (GetAuditMessages bo parse script) \<le> k \<and>
   snd (GetAuditMessages bo parse script) \<noteq> Looping"
proof (induction script arbitrary: k)
  case Nil
  then show ?case by simp
next
  case (Cons dr script)
  obtain d r where dr: "dr = (d, r)" by (cases dr)
  show ?case
  proof (cases d)
    case True
    then show ?thesis using dr by (simp add: receives_def)
  next
    case False
    with Cons.prems dr obtain j where k: "k = Suc j" by (cases k) auto
    with Cons.prems have "j < length script" "fst (script ! j)" by simp_all
    then have IH: "receives (GetAuditMessages bo parse script) \<le> j"
      "snd (GetAuditMessages bo parse script) \<noteq> Looping"
      using Cons.IH by blast+
    show ?thesis using False dr k IH
      by (cases "on_success (dispatch_all (dispatch_event bo parse)) r")
         (simp_all del: cycle.simps add: receives_cycle snd_cycle)
  qed
qed

text \<open>
  C10. In the two cancellable drivers, a signal raised while cycle \<open>j\<close> runs can be
  received at the \<open>select\<close> of iteration \<open>j + 1\<close>. The driver then makes at most
  \<open>j + 1\<close> reads in all, those of cycles \<open>0\<close> to \<open>j\<close>: at most one read, that of
  cycle \<open>j\<close>, comes after the signal, and the driver is no longer looping (it has
  returned, unless a dispatch panicked before). A signal that can be received at the first
  \<open>select\<close> makes the driver return without any read.
\<close>

theorem cancellation_within_one_cycle:
  "(Suc j < length script \<and> fst (script ! Suc j) \<longrightarrow>
      receives (GetRawAuditMessages bo script) \<le> j + 1 \<and>
      snd (GetRawAuditMessages bo script) \<noteq> Looping) \<and>
   (Suc j < length script' \<and> fst (script' ! Suc j) \<longrightarrow>
      receives (GetAuditMessages bo parse script') \<le> j + 1 \<and>
      snd (GetAuditMessages bo parse script') \<noteq> Looping) \<and>
   (script \<noteq> [] \<and> fst (script ! 0) \<longrightarrow> GetRawAuditMessages bo script = ([], Returned)) \<and>
   (script' \<noteq> [] \<and> fst (script' ! 0) \<longrightarrow> GetAuditMessages bo parse script' = ([], Returned))"
proof -
  have 3: "GetRawAuditMessages bo script = ([], Returned)" if "script \<noteq> []" "fst (script ! 0)"
    using that by (cases script) auto
  have 4: "GetAuditMessages bo parse script' = ([], Returned)" if "script' \<noteq> []" "fst (script' ! 0)"
    using that by (cases script') auto
  from 3 4 GetRawAuditMessages_cancel[of "Suc j" script bo]
    GetAuditMessages_cancel[of "Suc j" script' bo parse]
  show ?thesis by simp
qed

theorem cancellation_within_one_cycle_witness:
  "Suc 0 < length [(False, Inr (Slice [20,0,0,0,20,5,0,0,0,0,0,0,0,0,0,0,65,66,67,68] [])),
                   (True, Inr (Slice [20,0,0,0,20,5,0,0,0,0,0,0,0,0,0,0,65,66,67,68] [])),
                   (True, Inr (Slice [20,0,0,0,20,5,0,0,0,0,0,0,0,0,0,0,65,66,67,68] []))] \<and>
   GetRawAuditMessages LittleEndian
     [(False, Inr (Slice [20,0,0,0,20,5,0,0,0,0,0,0,0,0,0,0,65,66,67,68] [])),
      (True, Inr (Slice [20,0,0,0,20,5,0,0,0,0,0,0,0,0,0,0,65,66,67,68] [])),
      (True, Inr (Slice [20,0,0,0,20,5,0,0,0,0,0,0,0,0,0,0,65,66,67,68] []))] =
     ([Receive, Callback (1300, ''ABCD'', None)], Returned) \<and>
   receives (GetRawAuditMessages LittleEndian
     [(False, Inr (Slice [20,0,0,0,20,5,0,0,0,0,0,0,0,0,0,0,65,66,67,68] [])),
      (True, Inr (Slice [20,0,0,0,20,5,0,0,0,0,0,0,0,0,0,0,65,66,67,68] [])),
      (True, Inr (Slice [20,0,0,0,20,5,0,0,0,0,0,0,0,0,0,0,65,66,67,68] []))]) \<le> 0 + 1"
proof -
  let ?B = "Slice [20,0,0,0,20,5,0,0,0,0,0,0,0,0,0,0,65,66,67,68] []"
  let ?s = "[(False, Inr ?B), (True, Inr ?B), (True, Inr ?B)]"
  have s: "split_loop LittleEndian ?B = Completed [(1300, ''ABCD'', None)]" by code_simp
  have r: "GetRawAuditMessages LittleEndian ?s = ([Receive, Callback (1300, ''ABCD'', None)], Returned)"
    by (simp add: s)
  have h: "Suc 0 < length ?s \<and> fst (?s ! Suc 0)" by simp
  from cancellation_within_one_cycle[where j = 0 and script = ?s and bo = LittleEndian] h
  have "receives (GetRawAuditMessages LittleEndian ?s) \<le> 0 + 1" by blast
  with r h show ?thesis by simp
qed

end
